theory Spec2Isabelle
  imports
    Complex_Main
    "HOL-Library.AList"
    "HOL-Library.Char_ord"
    "HOL-Library.List_Lexorder"
    "HOL-Library.Product_Lexorder"
begin

section \<open>Mass transit billing: the data model\<close>

text \<open>
  The development follows \<^verbatim>\<open>src/src/mass_transit_billing.py\<close>, class
  \<^verbatim>\<open>MassTransitBillingSystem\<close>.

  Amounts of money are Python floats in the source. They are modelled here as exact
  rationals: every constant of the program (0.80, 0.50, 0.30, 0.10, 2.0, 5.00, 15.00,
  100.00) is a decimal with at most two fraction digits, and the theorems below are about
  the decimal value the program computes, not about binary64 rounding of the sums.
  Where the source rounds a running total, the statements keep the rounding: none of
  them uses that a sum of amounts is a whole number of cents.
  Zones are Python integers (unbounded), hence \<open>int\<close>. Directions and user identifiers
  are the raw strings of the CSV input.
\<close>

datatype error = TypeError | ValueError | IndexError | KeyError | OSError

text \<open>
  A \<^verbatim>\<open>datetime\<close> as \<^verbatim>\<open>datetime.strptime(s, "%Y-%m-%dT%H:%M:%S")\<close> builds it, and
  the \<^verbatim>\<open>date\<close> that \<^verbatim>\<open>timestamp.date()\<close> returns. Python orders dates by
  year, then month, then day.
\<close>

datatype date = Date (year: nat) (month: nat) (day: nat)

datatype datetime =
  DateTime (dt_year: nat) (dt_month: nat) (dt_day: nat) (dt_hour: nat) (dt_minute: nat) (dt_second: nat)

definition date_of :: "datetime \<Rightarrow> date" where
  "date_of ts = Date (dt_year ts) (dt_month ts) (dt_day ts)"

definition date_gt :: "date \<Rightarrow> date \<Rightarrow> bool" where
  "date_gt d1 d2 \<longleftrightarrow>
     year d1 > year d2 \<or>
     (year d1 = year d2 \<and> (month d1 > month d2 \<or> (month d1 = month d2 \<and> day d1 > day d2)))"

text \<open>A journey as \<^verbatim>\<open>read_journey_data\<close> stores it: \<^verbatim>\<open>(zone, direction, timestamp)\<close>.\<close>

type_synonym journey = "int \<times> string \<times> datetime"

text \<open>
  Python's \<^verbatim>\<open>round(x, 2)\<close> on the exact value: the nearest multiple of 1/100, a tie
  going to the even one. \<open>round_half_even\<close> is the rounding to an integer that it
  performs on \<open>100 * x\<close>.
\<close>

definition round_half_even :: "rat \<Rightarrow> int" where
  "round_half_even y =
     (let f = \<lfloor>y\<rfloor>; d = y - of_int f
      in if d < 1 / 2 then f
         else if 1 / 2 < d then f + 1
         else if even f then f
         else f + 1)"

definition round2 :: "rat \<Rightarrow> rat" where
  "round2 x = of_int (round_half_even (x * 100)) / 100"

section \<open>The zone pricing function\<close>

text \<open>
  \<^verbatim>\<open>get_additional_zone_cost(zone)\<close>. The \<^verbatim>\<open>isinstance(zone, int)\<close> guard cannot fire
  on an \<open>int\<close>, so the model starts at the second guard. A Python function whose last
  \<^verbatim>\<open>if\<close> does not match returns \<^verbatim>\<open>None\<close>: that is \<open>Inr None\<close>.
\<close>

definition get_additional_zone_cost :: "int \<Rightarrow> error + rat option" where
  "get_additional_zone_cost zone =
     (if zone \<le> 0 then Inl ValueError
      else if zone = 1 then Inr (Some 0.80)
      else if 2 \<le> zone \<and> zone \<le> 3 then Inr (Some 0.50)
      else if 4 \<le> zone \<and> zone \<le> 5 then Inr (Some 0.30)
      else if zone \<ge> 6 then Inr (Some 0.10)
      else Inr None)"

section \<open>The fare engine\<close>

text \<open>The local variables of the per-user loop of \<^verbatim>\<open>calculate_billing_amounts_per_user\<close>.\<close>

record state =
  daily_journeys :: "int list"
  daily_total :: rat
  monthly_total :: rat
  cur_day :: date

text \<open>
  \<^verbatim>\<open>2.0 + get_additional_zone_cost(entry_zone) + get_additional_zone_cost(zone)\<close>,
  evaluated left to right: the first call, the first addition (a \<^verbatim>\<open>TypeError\<close> on
  \<^verbatim>\<open>None\<close>), the second call, the second addition.
\<close>

definition journey_cost :: "int \<Rightarrow> int \<Rightarrow> error + rat" where
  "journey_cost entry_zone zone =
     (case get_additional_zone_cost entry_zone of
        Inl e \<Rightarrow> Inl e
      | Inr None \<Rightarrow> Inl TypeError
      | Inr (Some c1) \<Rightarrow>
          (case get_additional_zone_cost zone of
             Inl e \<Rightarrow> Inl e
           | Inr None \<Rightarrow> Inl TypeError
           | Inr (Some c2) \<Rightarrow> Inr (2.0 + c1 + c2)))"

text \<open>
  The \<^verbatim>\<open>if direction == "IN" ... elif ... elif ...\<close> chain of the loop body. The stack
  \<^verbatim>\<open>daily_journeys\<close> is a Python list: \<^verbatim>\<open>append\<close> adds at the end, \<^verbatim>\<open>pop()\<close>
  removes the last element.
\<close>

definition charge_journey :: "state \<Rightarrow> int \<Rightarrow> string \<Rightarrow> error + state" where
  "charge_journey st zone direction =
     (if direction = ''IN'' then
        Inr (st\<lparr>daily_journeys := daily_journeys st @ [zone]\<rparr>)
      else if direction = ''OUT'' \<and> daily_journeys st = [] then
        Inr (st\<lparr>daily_total := daily_total st + 5.00\<rparr>)
      else if direction = ''OUT'' then
        (let entry_zone = last (daily_journeys st);
             st1 = st\<lparr>daily_journeys := butlast (daily_journeys st)\<rparr>
         in case journey_cost entry_zone zone of
              Inl e \<Rightarrow> Inl e
            | Inr c \<Rightarrow> Inr (st1\<lparr>daily_total := daily_total st1 + round2 c\<rparr>))
      else Inr st)"

text \<open>The day check that ends the loop body: \<^verbatim>\<open>if timestamp.date() > cur_day\<close>.\<close>

definition roll_day :: "state \<Rightarrow> datetime \<Rightarrow> state" where
  "roll_day st timestamp =
     (if date_gt (date_of timestamp) (cur_day st) then
        st\<lparr>cur_day := date_of timestamp,
           monthly_total := monthly_total st + min 15.00 (daily_total st),
           daily_total := 0.00\<rparr>
      else st)"

text \<open>One iteration of \<^verbatim>\<open>for zone, direction, timestamp in journeys\<close>.\<close>

definition process_journey :: "state \<Rightarrow> journey \<Rightarrow> error + state" where
  "process_journey st j =
     (case j of (zone, direction, timestamp) \<Rightarrow>
        (case charge_journey st zone direction of
           Inl e \<Rightarrow> Inl e
         | Inr st' \<Rightarrow> Inr (roll_day st' timestamp)))"

text \<open>The loop: an exception leaves it at once.\<close>

fun process_journeys :: "state \<Rightarrow> journey list \<Rightarrow> error + state" where
  "process_journeys st [] = Inr st"
| "process_journeys st (j # js) =
     (case process_journey st j of
        Inl e \<Rightarrow> Inl e
      | Inr st' \<Rightarrow> process_journeys st' js)"

text \<open>The statements after the loop, split at the three assignments.\<close>

definition final_daily_total :: "state \<Rightarrow> rat" where
  "final_daily_total st =
     (if daily_journeys st \<noteq> [] then
        daily_total st + round2 (5.00 * of_nat (length (daily_journeys st)))
      else daily_total st)"

definition final_monthly_total :: "state \<Rightarrow> rat" where
  "final_monthly_total st = monthly_total st + round2 (min 15.00 (final_daily_total st))"

definition final_bill :: "state \<Rightarrow> rat" where
  "final_bill st = min 100.00 (final_monthly_total st)"

text \<open>
  The state before the loop. \<^verbatim>\<open>journeys[0]\<close> raises \<^verbatim>\<open>IndexError\<close> on an empty list.
\<close>

definition initial_state :: "journey list \<Rightarrow> error + state" where
  "initial_state journeys =
     (case journeys of
        [] \<Rightarrow> Inl IndexError
      | (zone, direction, timestamp) # _ \<Rightarrow>
          Inr \<lparr>daily_journeys = [], daily_total = 0.00, monthly_total = 0.00,
               cur_day = date_of timestamp\<rparr>)"

text \<open>The body of the outer loop for one user: the value stored in \<^verbatim>\<open>user_bills[user_id]\<close>.\<close>

definition user_bill :: "journey list \<Rightarrow> error + rat" where
  "user_bill journeys =
     (case initial_state journeys of
        Inl e \<Rightarrow> Inl e
      | Inr st0 \<Rightarrow>
          (case process_journeys st0 journeys of
             Inl e \<Rightarrow> Inl e
           | Inr st \<Rightarrow> Inr (final_bill st)))"

text \<open>
  \<^verbatim>\<open>calculate_billing_amounts_per_user\<close>: the dictionaries are association lists in
  insertion order; \<^verbatim>\<open>user_bills[user_id] = ...\<close> overwrites an entry in place or appends
  a new one.
\<close>

fun calculate_billing_amounts_per_user ::
  "(string \<times> journey list) list \<Rightarrow> (string \<times> rat) list \<Rightarrow> error + (string \<times> rat) list" where
  "calculate_billing_amounts_per_user [] user_bills = Inr user_bills"
| "calculate_billing_amounts_per_user ((user_id, journeys) # rest) user_bills =
     (case user_bill journeys of
        Inl e \<Rightarrow> Inl e
      | Inr b \<Rightarrow> calculate_billing_amounts_per_user rest (AList.update user_id b user_bills))"

section \<open>Reading the zone map\<close>

text \<open>
  \<^verbatim>\<open>int(zone)\<close> on a string. On a string of ASCII characters the interpreter skips the
  blanks of C (space, tab, line feed, vertical tab, form feed, carriage return) at both
  ends, takes one sign, and wants decimal digits for the rest, where single underscores
  may stand between digits. A literal of more than 640 digits is refused when the
  interpreter has a limit on the digits of such conversions and the literal exceeds it
  (\<open>max_str_digits\<close>: 4300 unless configured, 0 for no limit, as in interpreters that
  have none). On a string with a character outside ASCII the interpreter first consults
  the Unicode database for blanks and digits: that conversion is the parameter
  \<open>unicode_int\<close>. Every refusal is a \<^verbatim>\<open>ValueError\<close>, here \<open>None\<close>.
\<close>

definition is_space :: "char \<Rightarrow> bool" where
  "is_space c = (let n = (of_char c :: nat) in n = 32 \<or> (9 \<le> n \<and> n \<le> 13))"

definition is_digit :: "char \<Rightarrow> bool" where
  "is_digit c = (let n = (of_char c :: nat) in 48 \<le> n \<and> n \<le> 57)"

definition digit_value :: "char \<Rightarrow> nat" where
  "digit_value c = of_char c - 48"

definition strip :: "string \<Rightarrow> string" where
  "strip s = rev (dropWhile is_space (rev (dropWhile is_space s)))"

fun digits_from :: "nat \<Rightarrow> string \<Rightarrow> nat option" where
  "digits_from acc [] = Some acc"
| "digits_from acc (c # cs) =
     (if is_digit c then digits_from (acc * 10 + digit_value c) cs
      else if c = CHR ''_'' then
        (case cs of
           [] \<Rightarrow> None
         | d # ds \<Rightarrow> if is_digit d then digits_from (acc * 10 + digit_value d) ds else None)
      else None)"

definition unsigned_int :: "nat \<Rightarrow> string \<Rightarrow> nat option" where
  "unsigned_int max_str_digits s =
     (case s of
        [] \<Rightarrow> None
      | d # ds \<Rightarrow>
          if is_digit d then
            (case digits_from (digit_value d) ds of
               None \<Rightarrow> None
             | Some n \<Rightarrow>
                 (let digits = length (filter is_digit s)
                  in if 640 < digits \<and> 0 < max_str_digits \<and> max_str_digits < digits
                     then None else Some n))
          else None)"

definition py_int :: "(string \<Rightarrow> int option) \<Rightarrow> nat \<Rightarrow> string \<Rightarrow> int option" where
  "py_int unicode_int max_str_digits s =
     (if list_ex (\<lambda>c. 128 \<le> (of_char c :: nat)) s then unicode_int s
      else
        (case strip s of
           [] \<Rightarrow> None
         | c # cs \<Rightarrow>
             if c = CHR ''-'' then map_option (\<lambda>n. - int n) (unsigned_int max_str_digits cs)
             else if c = CHR ''+'' then map_option int (unsigned_int max_str_digits cs)
             else map_option int (unsigned_int max_str_digits (c # cs))))"

text \<open>
  \<^verbatim>\<open>read_zone_map\<close>. The file is given by the rows that \<^verbatim>\<open>csv.reader\<close> yields from it,
  or \<open>None\<close> when it cannot be opened. \<^verbatim>\<open>next(reader, None)\<close> drops the header row;
  \<^verbatim>\<open>for station, zone in reader\<close> raises \<^verbatim>\<open>ValueError\<close> on a row that has not exactly
  two fields; \<^verbatim>\<open>station_to_zone[station] = int(zone)\<close> stores whatever integer the
  conversion returns. The conversion is the parameter \<open>to_int\<close>, so that what is proved of
  the loader holds for the interpreter's \<^verbatim>\<open>int\<close> whatever it accepts; \<open>py_int\<close> above is
  the instance used on concrete files.
\<close>

fun read_zone_rows ::
  "(string \<Rightarrow> int option) \<Rightarrow> string list list \<Rightarrow> (string \<times> int) list
     \<Rightarrow> error + (string \<times> int) list" where
  "read_zone_rows to_int [] station_to_zone = Inr station_to_zone"
| "read_zone_rows to_int (row # rows) station_to_zone =
     (case row of
        [station, zone] \<Rightarrow>
          (case to_int zone of
             None \<Rightarrow> Inl ValueError
           | Some n \<Rightarrow> read_zone_rows to_int rows (AList.update station n station_to_zone))
      | _ \<Rightarrow> Inl ValueError)"

definition read_zone_map ::
  "(string \<Rightarrow> int option) \<Rightarrow> string list list option \<Rightarrow> (string \<times> int) list
     \<Rightarrow> error + (string \<times> int) list" where
  "read_zone_map to_int zone_map_file station_to_zone =
     (case zone_map_file of
        None \<Rightarrow> Inl OSError
      | Some rows \<Rightarrow> read_zone_rows to_int (tl rows) station_to_zone)"

section \<open>Reading the journey data\<close>

text \<open>
  \<^verbatim>\<open>read_journey_data\<close>, again on the rows of the CSV reader. The library function
  \<^verbatim>\<open>datetime.strptime\<close> is a parameter: \<open>None\<close> stands for its \<^verbatim>\<open>ValueError\<close>. The
  timestamp is parsed first; then \<^verbatim>\<open>station_to_zone[station]\<close> raises \<^verbatim>\<open>KeyError\<close> for
  an unknown station. \<^verbatim>\<open>journeys_per_user\<close> is a \<^verbatim>\<open>defaultdict(list)\<close>: a user seen
  for the first time starts from the empty list.
\<close>

fun read_journey_rows ::
  "(string \<Rightarrow> datetime option) \<Rightarrow> (string \<times> int) list \<Rightarrow> string list list
     \<Rightarrow> (string \<times> journey list) list \<Rightarrow> error + (string \<times> journey list) list" where
  "read_journey_rows strptime station_to_zone [] journeys_per_user = Inr journeys_per_user"
| "read_journey_rows strptime station_to_zone (row # rows) journeys_per_user =
     (case row of
        [user_id, station, direction, timestamp] \<Rightarrow>
          (case strptime timestamp of
             None \<Rightarrow> Inl ValueError
           | Some ts \<Rightarrow>
               (case map_of station_to_zone station of
                  None \<Rightarrow> Inl KeyError
                | Some zone \<Rightarrow>
                    read_journey_rows strptime station_to_zone rows
                      (AList.update user_id
                         ((case map_of journeys_per_user user_id of None \<Rightarrow> [] | Some js \<Rightarrow> js)
                            @ [(zone, direction, ts)])
                         journeys_per_user)))
      | _ \<Rightarrow> Inl ValueError)"

definition read_journey_data ::
  "(string \<Rightarrow> datetime option) \<Rightarrow> (string \<times> int) list \<Rightarrow> string list list option
     \<Rightarrow> (string \<times> journey list) list \<Rightarrow> error + (string \<times> journey list) list" where
  "read_journey_data strptime station_to_zone journey_data_file journeys_per_user =
     (case journey_data_file of
        None \<Rightarrow> Inl OSError
      | Some rows \<Rightarrow> read_journey_rows strptime station_to_zone (tl rows) journeys_per_user)"

section \<open>The bill report\<close>

text \<open>
  \<^verbatim>\<open>format(bill_amount, ".2f")\<close> on the exact value: the sign, the integer part in
  decimal, a point, and two digits, the value rounded to hundredths with ties to even.
\<close>

definition digit_char :: "nat \<Rightarrow> char" where
  "digit_char n = ''0123456789'' ! n"

fun str_nat :: "nat \<Rightarrow> string" where
  "str_nat n = (if n < 10 then [digit_char n] else str_nat (n div 10) @ [digit_char (n mod 10)])"

declare str_nat.simps [simp del]

definition format_2f :: "rat \<Rightarrow> string" where
  "format_2f x =
     (let n = nat (round_half_even (\<bar>x\<bar> * 100))
      in (if x < 0 then ''-'' else '''') @ str_nat (n div 100) @ ''.''
           @ [digit_char (n div 10 mod 10), digit_char (n mod 10)])"

text \<open>
  The rows that \<^verbatim>\<open>write_billing_output\<close> hands to \<^verbatim>\<open>writer.writerow\<close>, in order.
  \<^verbatim>\<open>sorted(self.user_bills.items())\<close> sorts the pairs of user and amount: by the user
  identifiers as strings, character by character, and by the amount between equal users.
\<close>

definition output_rows :: "(string \<times> rat) list \<Rightarrow> string list list" where
  "output_rows user_bills =
     map (\<lambda>(user_id, bill_amount). [user_id, format_2f bill_amount]) (sort user_bills)"

text \<open>
  The output file is the text it holds, or \<open>None\<close> when there is no file. What
  \<^verbatim>\<open>writer.writerow\<close> makes of a row is left to the library: it is the parameter
  \<open>writerow\<close>. The loop hands the file object one rendered row after the other, and the
  file object buffers them.
\<close>

fun writerows :: "(string list \<Rightarrow> string) \<Rightarrow> string list list \<Rightarrow> string \<Rightarrow> string" where
  "writerows writerow [] buffer = buffer"
| "writerows writerow (row # rows) buffer = writerows writerow rows (buffer @ writerow row)"

text \<open>
  \<^verbatim>\<open>write_billing_output\<close>. The environment decides two things: whether the file can
  be opened for writing (\<open>openable\<close>), and how many characters the device takes before a
  write fails (\<open>capacity\<close>, \<open>None\<close> for no limit). \<^verbatim>\<open>open(self.output_file, "w")\<close>
  empties the file. The buffered text reaches the device when the buffer fills or when
  the \<^verbatim>\<open>with\<close> block closes the file, so a failing device raises \<^verbatim>\<open>OSError\<close> out of a
  \<^verbatim>\<open>writerow\<close> or out of the close, and the file is left with the characters the device
  took, wherever in the text they end. The result is the exception raised, if any, and
  the file as the call leaves it.
\<close>

definition write_billing_output ::
  "(string list \<Rightarrow> string) \<Rightarrow> bool \<Rightarrow> nat option \<Rightarrow> (string \<times> rat) list \<Rightarrow> string option
     \<Rightarrow> error option \<times> string option" where
  "write_billing_output writerow openable capacity user_bills output_file =
     (if \<not> openable then (Some OSError, output_file)
      else
        (let written = writerows writerow (output_rows user_bills) []
         in case capacity of
              None \<Rightarrow> (None, Some written)
            | Some k \<Rightarrow>
                if length written \<le> k then (None, Some written)
                else (Some OSError, Some (take k written))))"

text \<open>
  \<^verbatim>\<open>process_billing\<close>: the four steps in order, starting from the empty dictionaries of
  \<^verbatim>\<open>__init__\<close>; the first exception ends the run.
\<close>

definition process_billing ::
  "(string \<Rightarrow> int option) \<Rightarrow> (string \<Rightarrow> datetime option) \<Rightarrow> (string list \<Rightarrow> string)
     \<Rightarrow> string list list option \<Rightarrow> string list list option
     \<Rightarrow> bool \<Rightarrow> nat option \<Rightarrow> string option
     \<Rightarrow> error option \<times> string option" where
  "process_billing to_int strptime writerow zone_map_file journey_data_file
       openable capacity output_file =
     (case read_zone_map to_int zone_map_file [] of
        Inl e \<Rightarrow> (Some e, output_file)
      | Inr station_to_zone \<Rightarrow>
          (case read_journey_data strptime station_to_zone journey_data_file [] of
             Inl e \<Rightarrow> (Some e, output_file)
           | Inr journeys_per_user \<Rightarrow>
               (case calculate_billing_amounts_per_user journeys_per_user [] of
                  Inl e \<Rightarrow> (Some e, output_file)
                | Inr user_bills \<Rightarrow>
                    write_billing_output writerow openable capacity user_bills output_file)))"

section \<open>Invariants of the loop\<close>

text \<open>The loop invariant behind the bounds: totals are non-negative and every pending
  entry zone is a valid zone.\<close>

definition sound_state :: "state \<Rightarrow> bool" where
  "sound_state st \<longleftrightarrow>
     0 \<le> daily_total st \<and> 0 \<le> monthly_total st \<and> list_all (\<lambda>z. 1 \<le> z) (daily_journeys st)"

section \<open>Auxiliary facts: rounding, prices, dates\<close>

lemma get_additional_zone_cost_tiers:
  "1 \<le> z \<Longrightarrow>
     get_additional_zone_cost z =
       Inr (Some (if z = 1 then 0.80 else if z \<le> 3 then 0.50 else if z \<le> 5 then 0.30 else 0.10))"
  by (simp add: get_additional_zone_cost_def)

lemma round_half_even_of_int: "round_half_even (of_int k) = k"
  by (simp add: round_half_even_def)

lemma round_half_even_mono:
  assumes "x \<le> y"
  shows "round_half_even x \<le> round_half_even y"
proof -
  have f: "\<lfloor>x\<rfloor> \<le> \<lfloor>y\<rfloor>"
    using assms by (rule floor_mono)
  have ux: "round_half_even x \<le> \<lfloor>x\<rfloor> + 1"
    by (simp add: round_half_even_def Let_def)
  have ly: "\<lfloor>y\<rfloor> \<le> round_half_even y"
    by (simp add: round_half_even_def Let_def)
  show ?thesis
  proof (cases "\<lfloor>x\<rfloor> < \<lfloor>y\<rfloor>")
    case True
    with ux ly show ?thesis
      by linarith
  next
    case False
    with f have eq: "\<lfloor>x\<rfloor> = \<lfloor>y\<rfloor>"
      by simp
    have "x - of_int \<lfloor>x\<rfloor> \<le> y - of_int \<lfloor>y\<rfloor>"
      using assms eq by simp
    then show ?thesis
      unfolding round_half_even_def Let_def using eq by auto
  qed
qed

lemma round2_cents: "round2 (of_int k / 100) = of_int k / 100"
  by (simp add: round2_def round_half_even_of_int)

lemma round2_idem: "round2 (round2 x) = round2 x"
  unfolding round2_def [of x] by (rule round2_cents)

lemma round2_mono: "x \<le> y \<Longrightarrow> round2 x \<le> round2 y"
  unfolding round2_def by (simp add: round_half_even_mono divide_right_mono)

lemma round2_nonneg: "0 \<le> x \<Longrightarrow> 0 \<le> round2 x"
  using round2_mono [of 0 x] round2_cents [of 0] by simp

lemma round2_le_15: "x \<le> 15 \<Longrightarrow> round2 x \<le> 15"
  using round2_mono [of x 15] round2_cents [of 1500] by simp

lemma additional_cost_cents:
  assumes "get_additional_zone_cost z = Inr (Some c)"
  shows "\<exists>k. c = of_int k / 100 \<and> 10 \<le> k \<and> k \<le> 80"
proof -
  have "c = of_int 80 / 100 \<or> c = of_int 50 / 100 \<or> c = of_int 30 / 100 \<or> c = of_int 10 / 100"
    using assms by (auto simp: get_additional_zone_cost_def split: if_splits)
  then show ?thesis
    by fastforce
qed

lemma journey_cost_cents:
  assumes "journey_cost a b = Inr c"
  shows "\<exists>k. c = of_int k / 100 \<and> 220 \<le> k \<and> k \<le> 360"
proof -
  from assms obtain c1 c2 where
    g1: "get_additional_zone_cost a = Inr (Some c1)" and
    g2: "get_additional_zone_cost b = Inr (Some c2)" and
    c: "c = 2.0 + c1 + c2"
    by (auto simp: journey_cost_def split: sum.splits option.splits)
  from g1 obtain k1 where k1: "c1 = of_int k1 / 100" "10 \<le> k1" "k1 \<le> 80"
    using additional_cost_cents by blast
  from g2 obtain k2 where k2: "c2 = of_int k2 / 100" "10 \<le> k2" "k2 \<le> 80"
    using additional_cost_cents by blast
  have "c = of_int (200 + k1 + k2) / 100"
    using c k1(1) k2(1) by (simp add: add_divide_distrib)
  moreover have "220 \<le> 200 + k1 + k2" "200 + k1 + k2 \<le> 360"
    using k1 k2 by simp_all
  ultimately show ?thesis
    by blast
qed

lemma journey_cost_round2:
  assumes "journey_cost a b = Inr c"
  shows "round2 c = c" and "0 \<le> c" and "c \<le> 15"
proof -
  from assms obtain k where k: "c = of_int k / 100" "220 \<le> k" "k \<le> 360"
    using journey_cost_cents by blast
  show "round2 c = c"
    unfolding k(1) by (rule round2_cents)
  have "(0::rat) \<le> of_int k" "(of_int k :: rat) \<le> 1500"
    using k(2,3) by simp_all
  then show "0 \<le> c" "c \<le> 15"
    unfolding k(1) by simp_all
qed

lemma journey_cost_valid:
  assumes "1 \<le> a" and "1 \<le> b"
  shows "\<exists>ca cb. get_additional_zone_cost a = Inr (Some ca)
            \<and> get_additional_zone_cost b = Inr (Some cb)
            \<and> journey_cost a b = Inr (2.0 + ca + cb)"
  using assms by (simp add: journey_cost_def get_additional_zone_cost_tiers)

lemma date_gt_irrefl: "\<not> date_gt d d"
  by (simp add: date_gt_def)

section \<open>Auxiliary facts: the loop and its invariants\<close>

lemma charge_journey_frame:
  assumes "charge_journey st zone direction = Inr st1"
  shows "monthly_total st1 = monthly_total st" and "cur_day st1 = cur_day st"
  using assms
  by (auto simp: charge_journey_def Let_def split: if_splits sum.splits)

lemma charge_journey_daily_total:
  assumes "charge_journey st zone direction = Inr st1"
  shows "daily_total st \<le> daily_total st1"
proof (cases "direction = ''OUT'' \<and> daily_journeys st \<noteq> []")
  case True
  with assms obtain c where
    c: "journey_cost (last (daily_journeys st)) zone = Inr c" and
    d: "daily_total st1 = daily_total st + round2 c"
    by (auto simp: charge_journey_def Let_def split: sum.splits)
  from journey_cost_round2 [OF c] have "0 \<le> round2 c"
    by simp
  with d show ?thesis
    by simp
next
  case False
  with assms show ?thesis
    by (auto simp: charge_journey_def split: if_splits)
qed

lemma final_daily_total_eq:
  "final_daily_total st = daily_total st + 5.00 * of_nat (length (daily_journeys st))"
proof -
  have "(5.00 :: rat) * of_nat (length (daily_journeys st))
          = of_int (500 * int (length (daily_journeys st))) / 100"
    by simp
  then have "round2 (5.00 * of_nat (length (daily_journeys st)))
          = 5.00 * of_nat (length (daily_journeys st))"
    by (simp only: round2_cents)
  then show ?thesis
    by (simp add: final_daily_total_def)
qed

lemma process_journey_split:
  assumes "process_journey st (zone, direction, timestamp) = Inr st'"
  shows "\<exists>st1. charge_journey st zone direction = Inr st1 \<and> st' = roll_day st1 timestamp"
  using assms by (auto simp: process_journey_def split: sum.splits)

lemma process_journeys_append:
  "process_journeys st (xs @ ys) =
     (case process_journeys st xs of Inl e \<Rightarrow> Inl e | Inr st' \<Rightarrow> process_journeys st' ys)"
  by (induction xs arbitrary: st) (auto split: sum.splits)

lemma roll_day_monthly_total:
  "monthly_total (roll_day st1 timestamp) =
     (if date_gt (date_of timestamp) (cur_day st1)
      then monthly_total st1 + min 15.00 (daily_total st1) else monthly_total st1)"
  by (simp add: roll_day_def)

lemma initial_state_nonempty:
  "journeys \<noteq> [] \<Longrightarrow> \<exists>st0. initial_state journeys = Inr st0"
  by (cases journeys) (auto simp: initial_state_def split: prod.splits)

lemma charge_journey_valid:
  assumes "1 \<le> zone" and "sound_state st"
  shows "\<exists>st1. charge_journey st zone direction = Inr st1 \<and> sound_state st1
           \<and> daily_total st \<le> daily_total st1"
proof -
  have zs: "\<forall>z \<in> set (daily_journeys st). 1 \<le> z"
    using assms(2) by (simp add: sound_state_def list_all_iff)
  have ex: "\<exists>st1. charge_journey st zone direction = Inr st1
              \<and> set (daily_journeys st1) \<subseteq> insert zone (set (daily_journeys st))"
  proof (cases "direction = ''OUT'' \<and> daily_journeys st \<noteq> []")
    case True
    then have "1 \<le> last (daily_journeys st)"
      using zs by simp
    with assms(1) obtain c where "journey_cost (last (daily_journeys st)) zone = Inr c"
      using journey_cost_valid by blast
    with True show ?thesis
      by (auto simp: charge_journey_def Let_def dest: in_set_butlastD)
  next
    case False
    then show ?thesis
      by (auto simp: charge_journey_def)
  qed
  then obtain st1 where
    c: "charge_journey st zone direction = Inr st1" and
    s: "set (daily_journeys st1) \<subseteq> insert zone (set (daily_journeys st))"
    by blast
  have d: "daily_total st \<le> daily_total st1"
    using c by (rule charge_journey_daily_total)
  have "monthly_total st1 = monthly_total st"
    using c by (rule charge_journey_frame)
  with d s zs assms have "sound_state st1"
    by (auto simp: sound_state_def list_all_iff)
  with c d show ?thesis
    by blast
qed

lemma roll_day_sound:
  assumes "sound_state st1"
  shows "sound_state (roll_day st1 timestamp)"
    and "monthly_total st1 \<le> monthly_total (roll_day st1 timestamp)"
  using assms by (simp_all add: sound_state_def roll_day_def)

lemma process_journey_valid:
  assumes "1 \<le> zone" and "sound_state st"
  shows "\<exists>st1. charge_journey st zone direction = Inr st1
           \<and> process_journey st (zone, direction, timestamp) = Inr (roll_day st1 timestamp)
           \<and> sound_state (roll_day st1 timestamp)
           \<and> daily_total st \<le> daily_total st1
           \<and> monthly_total st1 \<le> monthly_total (roll_day st1 timestamp)"
proof -
  from charge_journey_valid [OF assms] obtain st1 where
    c: "charge_journey st zone direction = Inr st1" and s: "sound_state st1" and
    d: "daily_total st \<le> daily_total st1"
    by blast
  have "process_journey st (zone, direction, timestamp) = Inr (roll_day st1 timestamp)"
    using c by (simp add: process_journey_def)
  with c d roll_day_sound [OF s] show ?thesis
    by blast
qed

lemma process_journeys_valid:
  assumes "\<forall>j \<in> set js. 1 \<le> fst j" and "sound_state st"
  shows "\<exists>st'. process_journeys st js = Inr st' \<and> sound_state st'"
  using assms
proof (induction js arbitrary: st)
  case Nil
  then show ?case by simp
next
  case (Cons j js)
  obtain zone direction timestamp where j: "j = (zone, direction, timestamp)"
    by (cases j) auto
  with Cons.prems have "1 \<le> zone"
    by simp
  from process_journey_valid [OF this Cons.prems(2)] obtain st1 where
    p: "process_journey st j = Inr (roll_day st1 timestamp)" and
    s: "sound_state (roll_day st1 timestamp)"
    unfolding j by blast
  from Cons.prems(1) have "\<forall>j \<in> set js. 1 \<le> fst j"
    by simp
  from Cons.IH [OF this s] p show ?case
    by simp
qed

lemma initial_state_sound: "initial_state journeys = Inr st0 \<Longrightarrow> sound_state st0"
  by (auto simp: initial_state_def sound_state_def split: list.splits)

lemma final_bill_bounds:
  assumes "sound_state st"
  shows "daily_total st \<le> final_daily_total st"
    and "monthly_total st \<le> final_monthly_total st"
    and "0 \<le> final_bill st" and "final_bill st \<le> 100.00"
proof -
  show d: "daily_total st \<le> final_daily_total st"
    by (simp add: final_daily_total_eq)
  with assms have "0 \<le> min 15.00 (final_daily_total st)"
    by (simp add: sound_state_def)
  then have "0 \<le> round2 (min 15.00 (final_daily_total st))"
    by (rule round2_nonneg)
  then show m: "monthly_total st \<le> final_monthly_total st"
    by (simp add: final_monthly_total_def)
  with assms show "0 \<le> final_bill st"
    by (simp add: final_bill_def sound_state_def)
  show "final_bill st \<le> 100.00"
    by (simp add: final_bill_def)
qed

lemma user_run_sound:
  assumes "journeys \<noteq> []" and "\<forall>j \<in> set journeys. 1 \<le> fst j"
  shows "\<exists>st0 st. initial_state journeys = Inr st0
     \<and> process_journeys st0 journeys = Inr st
     \<and> user_bill journeys = Inr (final_bill st)
     \<and> 0 \<le> final_bill st \<and> final_bill st \<le> 100.00
     \<and> daily_total st \<le> final_daily_total st
     \<and> monthly_total st \<le> final_monthly_total st
     \<and> (\<forall>pre zone direction timestamp post s.
           journeys = pre @ (zone, direction, timestamp) # post \<longrightarrow>
           process_journeys st0 pre = Inr s \<longrightarrow>
           (\<exists>s1. charge_journey s zone direction = Inr s1
              \<and> daily_total s \<le> daily_total s1
              \<and> monthly_total s1 \<le> monthly_total (roll_day s1 timestamp)))"
proof -
  from assms(1) obtain st0 where st0: "initial_state journeys = Inr st0"
    using initial_state_nonempty by blast
  then have s0: "sound_state st0"
    by (rule initial_state_sound)
  from process_journeys_valid [OF assms(2) s0] obtain st where
    run: "process_journeys st0 journeys = Inr st" and s: "sound_state st"
    by blast
  have bill: "user_bill journeys = Inr (final_bill st)"
    using st0 run by (simp add: user_bill_def)
  have step: "\<exists>s1. charge_journey s zone direction = Inr s1
              \<and> daily_total s \<le> daily_total s1
              \<and> monthly_total s1 \<le> monthly_total (roll_day s1 timestamp)"
    if split: "journeys = pre @ (zone, direction, timestamp) # post"
      and pre: "process_journeys st0 pre = Inr s"
    for pre zone direction timestamp post s
  proof -
    have "\<forall>j \<in> set pre. 1 \<le> fst j" and z: "1 \<le> zone"
      using assms(2) unfolding split by simp_all
    from process_journeys_valid [OF this(1) s0] pre have "sound_state s"
      by simp
    from process_journey_valid [OF z this] show ?thesis
      by blast
  qed
  from st0 run bill final_bill_bounds [OF s] step show ?thesis
    by blast
qed

lemma set_update_subset: "set (AList.update k v al) \<subseteq> insert (k, v) (set al)"
  by (induction al) auto

lemma user_bill_valid:
  assumes "journeys \<noteq> []" and "\<forall>j \<in> set journeys. 1 \<le> fst j"
  shows "\<exists>b. user_bill journeys = Inr b \<and> 0 \<le> b \<and> b \<le> 100.00"
proof -
  from assms(1) obtain st0 where st0: "initial_state journeys = Inr st0"
    using initial_state_nonempty by blast
  from process_journeys_valid [OF assms(2) initial_state_sound [OF st0]] obtain st where
    run: "process_journeys st0 journeys = Inr st" and s: "sound_state st"
    by blast
  have "user_bill journeys = Inr (final_bill st)"
    using st0 run by (simp add: user_bill_def)
  with final_bill_bounds(3,4) [OF s] show ?thesis
    by blast
qed

lemma calculate_billing_amounts_valid:
  assumes "\<forall>(user_id, journeys) \<in> set journeys_per_user.
             journeys \<noteq> [] \<and> (\<forall>j \<in> set journeys. 1 \<le> fst j)"
    and "\<forall>(user_id, bill) \<in> set acc. 0 \<le> bill \<and> bill \<le> 100.00"
  shows "\<exists>user_bills. calculate_billing_amounts_per_user journeys_per_user acc = Inr user_bills
           \<and> (\<forall>(user_id, bill) \<in> set user_bills. 0 \<le> bill \<and> bill \<le> 100.00)"
  using assms
proof (induction journeys_per_user arbitrary: acc)
  case Nil
  then show ?case by simp
next
  case (Cons p rest)
  obtain user_id journeys where p: "p = (user_id, journeys)"
    by (cases p) auto
  with Cons.prems(1) have "journeys \<noteq> []" and "\<forall>j \<in> set journeys. 1 \<le> fst j"
    by simp_all
  then obtain b where b: "user_bill journeys = Inr b" "0 \<le> b" "b \<le> 100.00"
    using user_bill_valid by blast
  have "\<forall>(user_id, bill) \<in> set (AList.update user_id b acc). 0 \<le> bill \<and> bill \<le> 100.00"
    using Cons.prems(2) b(2,3) set_update_subset [of user_id b acc] by auto
  moreover from Cons.prems(1) have "\<forall>(user_id, journeys) \<in> set rest.
             journeys \<noteq> [] \<and> (\<forall>j \<in> set journeys. 1 \<le> fst j)"
    by simp
  ultimately show ?case
    using Cons.IH [of "AList.update user_id b acc"] b(1) p by simp
qed

text \<open>The equations that run the loop body on a concrete journey.\<close>

lemmas run_simps =
  process_journey_def charge_journey_def roll_day_def date_gt_def date_of_def
  journey_cost_def get_additional_zone_cost_def

section \<open>Auxiliary facts: the zone map\<close>

lemma read_zone_rows_cases:
  "read_zone_rows to_int (row # rows) m = Inr m' \<longleftrightarrow>
     (\<exists>station zone n. row = [station, zone] \<and> to_int zone = Some n
        \<and> read_zone_rows to_int rows (AList.update station n m) = Inr m')"
  by (auto split: list.splits option.splits)

lemma read_zone_rows_error: "read_zone_rows to_int rows m = Inl e \<Longrightarrow> e = ValueError"
  by (induction rows arbitrary: m) (auto split: list.splits option.splits)

lemma read_zone_rows_ok:
  assumes "\<forall>row \<in> set rows. \<exists>station zone n. row = [station, zone] \<and> to_int zone = Some n"
  shows "\<exists>m'. read_zone_rows to_int rows m = Inr m'"
  using assms
proof (induction rows arbitrary: m)
  case Nil
  then show ?case by simp
next
  case (Cons row rows)
  then obtain station zone n where "row = [station, zone]" and "to_int zone = Some n"
    by auto
  moreover from Cons obtain m' where "read_zone_rows to_int rows (AList.update station n m) = Inr m'"
    by auto
  ultimately show ?case
    by simp
qed

lemma read_zone_rows_well_formed:
  assumes "read_zone_rows to_int rows m = Inr m'"
  shows "\<forall>row \<in> set rows. \<exists>station zone n. row = [station, zone] \<and> to_int zone = Some n"
  using assms
proof (induction rows arbitrary: m)
  case Nil
  then show ?case by simp
next
  case (Cons row rows)
  from Cons.prems obtain station zone n where
    "row = [station, zone]" "to_int zone = Some n"
    "read_zone_rows to_int rows (AList.update station n m) = Inr m'"
    unfolding read_zone_rows_cases by blast
  with Cons.IH show ?case
    by auto
qed

lemma read_zone_rows_untouched:
  assumes "read_zone_rows to_int rows m = Inr m'" and "station \<notin> set (map hd rows)"
  shows "map_of m' station = map_of m station"
  using assms
proof (induction rows arbitrary: m)
  case Nil
  then show ?case by simp
next
  case (Cons row rows)
  from Cons.prems(1) obtain s zone n where
    row: "row = [s, zone]" and rest: "read_zone_rows to_int rows (AList.update s n m) = Inr m'"
    unfolding read_zone_rows_cases by blast
  from Cons.prems(2) row have "s \<noteq> station" and "station \<notin> set (map hd rows)"
    by auto
  with Cons.IH [OF rest] show ?case
    by (simp add: update_conv')
qed

lemma read_zone_rows_last_wins:
  assumes "read_zone_rows to_int (pre @ [station, zone] # post) m = Inr m'"
    and "station \<notin> set (map hd post)" and "to_int zone = Some n"
  shows "map_of m' station = Some n"
  using assms
proof (induction pre arbitrary: m)
  case Nil
  then have "read_zone_rows to_int post (AList.update station n m) = Inr m'"
    by simp
  from read_zone_rows_untouched [OF this Nil.prems(2)] show ?case
    by (simp add: update_conv')
next
  case (Cons row pre)
  from Cons.prems(1) obtain s z k where
    "read_zone_rows to_int (pre @ [station, zone] # post) (AList.update s k m) = Inr m'"
    unfolding append_Cons read_zone_rows_cases by blast
  from Cons.IH [OF this Cons.prems(2,3)] show ?case .
qed

text \<open>The equations that run the conversion on a concrete string.\<close>

lemmas py_int_simps =
  py_int_def strip_def is_space_def unsigned_int_def is_digit_def digit_value_def

section \<open>Auxiliary facts: the bill report\<close>

lemma digit_char_is_digit:
  assumes "n < 10"
  shows "is_digit (digit_char n)" and "digit_char n \<noteq> CHR ''.''"
proof -
  from assms have "n \<in> {0, 1, 2, 3, 4, 5, 6, 7, 8, 9}"
    by auto
  then show "is_digit (digit_char n)" and "digit_char n \<noteq> CHR ''.''"
    by (auto simp: digit_char_def is_digit_def)
qed

lemma str_nat_digits: "str_nat n \<noteq> [] \<and> (\<forall>c \<in> set (str_nat n). is_digit c \<and> c \<noteq> CHR ''.'')"
proof (induction n rule: str_nat.induct)
  case (1 n)
  show ?case
  proof (cases "n < 10")
    case True
    then show ?thesis
      using digit_char_is_digit [of n] by (simp add: str_nat.simps [of n])
  next
    case False
    moreover have "n mod 10 < 10"
      by simp
    ultimately show ?thesis
      using "1.IH" digit_char_is_digit [of "n mod 10"] by (auto simp: str_nat.simps [of n])
  qed
qed

lemma format_2f_shape:
  "\<exists>ip d1 d2. format_2f x = ip @ ''.'' @ [d1, d2] \<and> ip \<noteq> [] \<and> CHR ''.'' \<notin> set ip
      \<and> is_digit d1 \<and> is_digit d2"
proof -
  define n where "n = nat (round_half_even (\<bar>x\<bar> * 100))"
  define ip where "ip = (if x < 0 then ''-'' else []) @ str_nat (n div 100)"
  have "format_2f x = ip @ ''.'' @ [digit_char (n div 10 mod 10), digit_char (n mod 10)]"
    by (simp add: format_2f_def n_def ip_def Let_def)
  moreover have "ip \<noteq> []" and "CHR ''.'' \<notin> set ip"
    using str_nat_digits [of "n div 100"] by (auto simp: ip_def)
  moreover have "is_digit (digit_char (n div 10 mod 10))" and "is_digit (digit_char (n mod 10))"
    by (simp_all add: digit_char_is_digit)
  ultimately show ?thesis
    by blast
qed

lemma fst_mono_lexorder: "(p :: 'a::linorder \<times> 'b::linorder) \<le> q \<Longrightarrow> fst p \<le> fst q"
  by (auto simp: less_eq_prod_def)

lemma sorted_map_fst:
  fixes xs :: "('a::linorder \<times> 'b::linorder) list"
  assumes "sorted xs"
  shows "sorted (map fst xs)"
  using assms by (induction xs) (auto simp: fst_mono_lexorder)

lemma output_rows_users: "map hd (output_rows user_bills) = map fst (sort user_bills)"
  by (simp add: output_rows_def comp_def case_prod_beta)

lemma writerows_concat: "writerows writerow rows buffer = buffer @ concat (map writerow rows)"
  by (induction rows arbitrary: buffer) simp_all

lemmas report_simps =
  output_rows_def format_2f_def round_half_even_def digit_char_def str_nat.simps

section \<open>Properties of the pricing function\<close>

text \<open>
  C6. For every zone \<open>z \<ge> 1\<close> the pricing function raises nothing and does not fall
  through to \<^verbatim>\<open>None\<close>: it returns 0.80 for zone 1, 0.50 for zones 2 and 3, 0.30 for
  zones 4 and 5 and 0.10 from zone 6 on, so its value is one of the four tier prices.
\<close>

theorem additional_cost_total_on_valid_zones:
  assumes "1 \<le> z"
  shows "get_additional_zone_cost z
           \<in> {Inr (Some 0.80), Inr (Some 0.50), Inr (Some 0.30), Inr (Some 0.10)}
         \<and> (z = 1 \<longrightarrow> get_additional_zone_cost z = Inr (Some 0.80))
         \<and> (2 \<le> z \<and> z \<le> 3 \<longrightarrow> get_additional_zone_cost z = Inr (Some 0.50))
         \<and> (4 \<le> z \<and> z \<le> 5 \<longrightarrow> get_additional_zone_cost z = Inr (Some 0.30))
         \<and> (6 \<le> z \<longrightarrow> get_additional_zone_cost z = Inr (Some 0.10))"
  using assms by (simp add: get_additional_zone_cost_def)

theorem additional_cost_total_on_valid_zones_witness:
  "(1::int) \<le> 4
     \<and> get_additional_zone_cost 4
           \<in> {Inr (Some 0.80), Inr (Some 0.50), Inr (Some 0.30), Inr (Some 0.10)}
     \<and> get_additional_zone_cost 4 = Inr (Some 0.30)"
  using additional_cost_total_on_valid_zones [of 4] by simp

text \<open>
  C7. The pricing function is monotonically non-increasing on the valid zones: for
  \<open>1 \<le> z1 \<le> z2\<close> both prices exist and the price of \<open>z1\<close> is at least the price of
  \<open>z2\<close>.
\<close>

theorem additional_cost_antimono:
  assumes "1 \<le> z1" and "z1 \<le> z2"
  shows "\<exists>c1 c2. get_additional_zone_cost z1 = Inr (Some c1)
           \<and> get_additional_zone_cost z2 = Inr (Some c2) \<and> c2 \<le> c1"
proof -
  let ?price = "\<lambda>z::int. if z = 1 then 0.80 else if z \<le> 3 then 0.50
                          else if z \<le> 5 then 0.30 else (0.10::rat)"
  have p1: "get_additional_zone_cost z1 = Inr (Some (?price z1))"
    using assms(1) by (rule get_additional_zone_cost_tiers)
  have "1 \<le> z2"
    using assms by linarith
  then have p2: "get_additional_zone_cost z2 = Inr (Some (?price z2))"
    by (rule get_additional_zone_cost_tiers)
  have "?price z2 \<le> ?price z1"
    using assms by simp
  with p1 p2 show ?thesis
    by blast
qed

theorem additional_cost_antimono_witness:
  "(1::int) \<le> 3 \<and> (3::int) \<le> 6
     \<and> (\<exists>c1 c2. get_additional_zone_cost 3 = Inr (Some c1)
           \<and> get_additional_zone_cost 6 = Inr (Some c2) \<and> c2 \<le> c1)"
  using additional_cost_antimono [of 3 6] by simp

section \<open>Properties of the fare engine\<close>

text \<open>
  C1. A user whose journeys are exactly one IN at zone \<open>a\<close> followed by one OUT at zone
  \<open>b\<close> on the same calendar day, with \<open>a \<ge> 1\<close> and \<open>b \<ge> 1\<close>, is billed
  \<open>round(2.00 + additional_cost(a) + additional_cost(b), 2)\<close>, capped at 15.00.
\<close>

theorem single_pair_bill:
  assumes "1 \<le> a" and "1 \<le> b" and "date_of t1 = date_of t2"
  shows "\<exists>ca cb. get_additional_zone_cost a = Inr (Some ca)
            \<and> get_additional_zone_cost b = Inr (Some cb)
            \<and> user_bill [(a, ''IN'', t1), (b, ''OUT'', t2)]
                = Inr (min 15.00 (round2 (2.00 + ca + cb)))"
proof -
  from assms(1,2) obtain ca cb where
    ga: "get_additional_zone_cost a = Inr (Some ca)" and
    gb: "get_additional_zone_cost b = Inr (Some cb)" and
    jc: "journey_cost a b = Inr (2.0 + ca + cb)"
    using journey_cost_valid by blast
  let ?c = "2.0 + ca + cb"
  have r: "round2 ?c = ?c" and u: "?c \<le> 15" and l: "0 \<le> ?c"
    using journey_cost_round2 [OF jc] by simp_all
  have "user_bill [(a, ''IN'', t1), (b, ''OUT'', t2)] = Inr (min 100.00 (round2 (min 15.00 (round2 ?c))))"
    using jc assms(3)
    by (simp add: user_bill_def initial_state_def process_journey_def charge_journey_def
        roll_day_def date_gt_irrefl final_bill_def final_monthly_total_def final_daily_total_def)
  also have "round2 (min 15.00 (round2 ?c)) = min 15.00 (round2 ?c)"
    using r u by simp
  also have "min 100.00 (min 15.00 (round2 ?c)) = min 15.00 (round2 ?c)"
    by simp
  finally show ?thesis
    using ga gb by simp
qed

theorem single_pair_bill_witness:
  "(1::int) \<le> 1 \<and> (1::int) \<le> 3
     \<and> date_of (DateTime 2022 4 4 9 40 0) = date_of (DateTime 2022 4 4 13 55 0)
     \<and> user_bill [(1, ''IN'', DateTime 2022 4 4 9 40 0), (3, ''OUT'', DateTime 2022 4 4 13 55 0)]
         = Inr 3.30"
proof -
  let ?js = "[(1, ''IN'', DateTime 2022 4 4 9 40 0), (3, ''OUT'', DateTime 2022 4 4 13 55 0)]"
  have d: "date_of (DateTime 2022 4 4 9 40 0) = date_of (DateTime 2022 4 4 13 55 0)"
    by (simp add: date_of_def)
  from single_pair_bill [of 1 3, OF _ _ d] obtain ca cb where
    ca: "get_additional_zone_cost 1 = Inr (Some ca)" and
    cb: "get_additional_zone_cost 3 = Inr (Some cb)" and
    b: "user_bill ?js = Inr (min 15.00 (round2 (2.00 + ca + cb)))"
    by auto
  have "ca = of_int 80 / 100" and "cb = of_int 50 / 100"
    using ca cb by (simp_all add: get_additional_zone_cost_def)
  then have "2.00 + ca + cb = of_int 330 / 100"
    by simp
  then have "round2 (2.00 + ca + cb) = 3.30"
    by (simp only: round2_cents) simp
  with b have "user_bill ?js = Inr 3.30"
    by simp
  with d show ?thesis
    by simp
qed

text \<open>
  C2. For a non-empty journey sequence: at every iteration the monthly total either stays
  or grows by \<open>min(15.00, daily_total)\<close>, the daily total being the one just charged, so
  by at most 15.00; after the loop the amount folded in is
  \<open>round(min(15.00, daily_total), 2)\<close>, the rounding of the source kept as it is written,
  again at most 15.00; and the bill is \<open>min(100.00, monthly_total)\<close>, at most 100.00.
  Nothing here uses that a running total is a whole number of cents.
\<close>

theorem daily_and_monthly_caps:
  assumes "journeys \<noteq> []"
  shows "\<exists>st0. initial_state journeys = Inr st0
     \<and> (\<forall>pre zone direction timestamp post st st'.
            journeys = pre @ (zone, direction, timestamp) # post \<longrightarrow>
            process_journeys st0 pre = Inr st \<longrightarrow>
            process_journey st (zone, direction, timestamp) = Inr st' \<longrightarrow>
            (\<exists>st1. charge_journey st zone direction = Inr st1
               \<and> monthly_total st' =
                   (if date_gt (date_of timestamp) (cur_day st)
                    then monthly_total st + min 15.00 (daily_total st1)
                    else monthly_total st))
            \<and> monthly_total st' - monthly_total st \<le> 15.00)
     \<and> (\<forall>st. process_journeys st0 journeys = Inr st \<longrightarrow>
            final_monthly_total st
              = monthly_total st + round2 (min 15.00 (final_daily_total st))
            \<and> round2 (min 15.00 (final_daily_total st)) \<le> 15.00
            \<and> user_bill journeys = Inr (min 100.00 (final_monthly_total st))
            \<and> min 100.00 (final_monthly_total st) \<le> 100.00)"
proof -
  from assms obtain st0 where st0: "initial_state journeys = Inr st0"
    using initial_state_nonempty by blast
  have step: "(\<exists>st1. charge_journey st zone direction = Inr st1
               \<and> monthly_total st' =
                   (if date_gt (date_of timestamp) (cur_day st)
                    then monthly_total st + min 15.00 (daily_total st1)
                    else monthly_total st))
            \<and> monthly_total st' - monthly_total st \<le> 15.00"
    if "process_journey st (zone, direction, timestamp) = Inr st'"
    for st st' zone direction timestamp
  proof -
    from that obtain st1 where
      c: "charge_journey st zone direction = Inr st1" and r: "st' = roll_day st1 timestamp"
      using process_journey_split by blast
    have m: "monthly_total st' =
               (if date_gt (date_of timestamp) (cur_day st)
                then monthly_total st + min 15.00 (daily_total st1)
                else monthly_total st)"
      unfolding r roll_day_monthly_total charge_journey_frame [OF c] by (rule refl)
    then have "monthly_total st' - monthly_total st \<le> 15.00"
      by simp
    with c m show ?thesis
      by blast
  qed
  have fin: "final_monthly_total st
              = monthly_total st + round2 (min 15.00 (final_daily_total st))
            \<and> round2 (min 15.00 (final_daily_total st)) \<le> 15.00
            \<and> user_bill journeys = Inr (min 100.00 (final_monthly_total st))
            \<and> min 100.00 (final_monthly_total st) \<le> 100.00"
    if run: "process_journeys st0 journeys = Inr st" for st
  proof -
    have "final_monthly_total st = monthly_total st + round2 (min 15.00 (final_daily_total st))"
      by (simp add: final_monthly_total_def)
    moreover have "round2 (min 15.00 (final_daily_total st)) \<le> 15.00"
      using round2_le_15 [of "min 15.00 (final_daily_total st)"] by simp
    moreover have "user_bill journeys = Inr (min 100.00 (final_monthly_total st))"
      using st0 run by (simp add: user_bill_def final_bill_def)
    ultimately show ?thesis
      by simp
  qed
  from st0 step fin show ?thesis
    by blast
qed

theorem daily_and_monthly_caps_witness:
  "[(1, ''OUT'', DateTime 2022 4 4 8 0 0), (1, ''OUT'', DateTime 2022 4 4 9 0 0),
    (1, ''OUT'', DateTime 2022 4 4 10 0 0), (1, ''OUT'', DateTime 2022 4 4 11 0 0),
    (1, ''IN'', DateTime 2022 4 5 8 0 0)] \<noteq> ([] :: journey list)
   \<and> user_bill
       [(1, ''OUT'', DateTime 2022 4 4 8 0 0), (1, ''OUT'', DateTime 2022 4 4 9 0 0),
        (1, ''OUT'', DateTime 2022 4 4 10 0 0), (1, ''OUT'', DateTime 2022 4 4 11 0 0),
        (1, ''IN'', DateTime 2022 4 5 8 0 0)]
     = Inr 20.00"
proof -
  let ?js = "[(1, ''OUT'', DateTime 2022 4 4 8 0 0), (1, ''OUT'', DateTime 2022 4 4 9 0 0),
    (1, ''OUT'', DateTime 2022 4 4 10 0 0), (1, ''OUT'', DateTime 2022 4 4 11 0 0),
    (1, ''IN'', DateTime 2022 4 5 8 0 0)] :: journey list"
  let ?st = "\<lparr>daily_journeys = [1], daily_total = 0, monthly_total = 15, cur_day = Date 2022 4 5\<rparr>"
  have ne: "?js \<noteq> []"
    by simp
  from daily_and_monthly_caps [OF ne] obtain st0 where
    i: "initial_state ?js = Inr st0" and
    f: "\<forall>st. process_journeys st0 ?js = Inr st \<longrightarrow>
            final_monthly_total st
              = monthly_total st + round2 (min 15.00 (final_daily_total st))
            \<and> round2 (min 15.00 (final_daily_total st)) \<le> 15.00
            \<and> user_bill ?js = Inr (min 100.00 (final_monthly_total st))
            \<and> min 100.00 (final_monthly_total st) \<le> 100.00"
    by (elim exE conjE)
  have "st0 = \<lparr>daily_journeys = [], daily_total = 0, monthly_total = 0, cur_day = Date 2022 4 4\<rparr>"
    using i by (simp add: initial_state_def date_of_def)
  then have "process_journeys st0 ?js = Inr ?st"
    by (simp add: run_simps)
  with f have "final_monthly_total ?st
                 = monthly_total ?st + round2 (min 15.00 (final_daily_total ?st))"
    and "user_bill ?js = Inr (min 100.00 (final_monthly_total ?st))"
    by blast+
  then have "user_bill ?js
               = Inr (min 100.00 (monthly_total ?st + round2 (min 15.00 (final_daily_total ?st))))"
    by simp
  also have "final_daily_total ?st = 5"
    by (simp add: final_daily_total_eq)
  also have "round2 (min 15.00 5) = 5"
    using round2_cents [of 500] by simp
  finally have "user_bill ?js = Inr 20.00"
    by simp
  with ne show ?thesis
    by simp
qed

text \<open>
  C10. When every user has a non-empty journey sequence whose zones are all at least 1, the
  computation raises nothing and every bill it stores lies between 0.00 and 100.00; for
  each user, no charge lowers the daily total, no day check lowers the monthly total, and
  the same holds for the statements after the loop.
\<close>

theorem bills_within_bounds:
  assumes "\<forall>(user_id, journeys) \<in> set journeys_per_user.
             journeys \<noteq> [] \<and> (\<forall>j \<in> set journeys. 1 \<le> fst j)"
  shows "(\<exists>user_bills. calculate_billing_amounts_per_user journeys_per_user [] = Inr user_bills
            \<and> (\<forall>(user_id, bill) \<in> set user_bills. 0 \<le> bill \<and> bill \<le> 100.00))
     \<and> (\<forall>(user_id, journeys) \<in> set journeys_per_user.
          \<exists>st0 st. initial_state journeys = Inr st0
            \<and> process_journeys st0 journeys = Inr st
            \<and> user_bill journeys = Inr (final_bill st)
            \<and> 0 \<le> final_bill st \<and> final_bill st \<le> 100.00
            \<and> daily_total st \<le> final_daily_total st
            \<and> monthly_total st \<le> final_monthly_total st
            \<and> (\<forall>pre zone direction timestamp post s.
                  journeys = pre @ (zone, direction, timestamp) # post \<longrightarrow>
                  process_journeys st0 pre = Inr s \<longrightarrow>
                  (\<exists>s1. charge_journey s zone direction = Inr s1
                     \<and> daily_total s \<le> daily_total s1
                     \<and> monthly_total s1 \<le> monthly_total (roll_day s1 timestamp))))"
proof (intro conjI)
  show "\<exists>user_bills. calculate_billing_amounts_per_user journeys_per_user [] = Inr user_bills
            \<and> (\<forall>(user_id, bill) \<in> set user_bills. 0 \<le> bill \<and> bill \<le> 100.00)"
    using assms by (rule calculate_billing_amounts_valid) simp
next
  show "\<forall>(user_id, journeys) \<in> set journeys_per_user.
          \<exists>st0 st. initial_state journeys = Inr st0
            \<and> process_journeys st0 journeys = Inr st
            \<and> user_bill journeys = Inr (final_bill st)
            \<and> 0 \<le> final_bill st \<and> final_bill st \<le> 100.00
            \<and> daily_total st \<le> final_daily_total st
            \<and> monthly_total st \<le> final_monthly_total st
            \<and> (\<forall>pre zone direction timestamp post s.
                  journeys = pre @ (zone, direction, timestamp) # post \<longrightarrow>
                  process_journeys st0 pre = Inr s \<longrightarrow>
                  (\<exists>s1. charge_journey s zone direction = Inr s1
                     \<and> daily_total s \<le> daily_total s1
                     \<and> monthly_total s1 \<le> monthly_total (roll_day s1 timestamp)))"
  proof (intro ballI, clarify)
    fix user_id journeys
    assume "(user_id, journeys) \<in> set journeys_per_user"
    with assms have "journeys \<noteq> []" and "\<forall>j \<in> set journeys. 1 \<le> fst j"
      by auto
    then show "\<exists>st0 st. initial_state journeys = Inr st0
            \<and> process_journeys st0 journeys = Inr st
            \<and> user_bill journeys = Inr (final_bill st)
            \<and> 0 \<le> final_bill st \<and> final_bill st \<le> 100.00
            \<and> daily_total st \<le> final_daily_total st
            \<and> monthly_total st \<le> final_monthly_total st
            \<and> (\<forall>pre zone direction timestamp post s.
                  journeys = pre @ (zone, direction, timestamp) # post \<longrightarrow>
                  process_journeys st0 pre = Inr s \<longrightarrow>
                  (\<exists>s1. charge_journey s zone direction = Inr s1
                     \<and> daily_total s \<le> daily_total s1
                     \<and> monthly_total s1 \<le> monthly_total (roll_day s1 timestamp)))"
      by (rule user_run_sound)
  qed
qed

theorem bills_within_bounds_witness:
  "list_all (\<lambda>(user_id, journeys). journeys \<noteq> [] \<and> list_all (\<lambda>j. 1 \<le> fst j) journeys)
     [(''user3'', [(4::int, ''IN'', DateTime 2022 4 6 5 10 0), (2, ''OUT'', DateTime 2022 4 6 7 40 0),
                   (2, ''OUT'', DateTime 2022 4 10 7 40 0)])]
   \<and> (\<exists>user_bills.
        calculate_billing_amounts_per_user
          [(''user3'', [(4, ''IN'', DateTime 2022 4 6 5 10 0), (2, ''OUT'', DateTime 2022 4 6 7 40 0),
                        (2, ''OUT'', DateTime 2022 4 10 7 40 0)])] []
          = Inr user_bills
        \<and> list_all (\<lambda>(user_id, bill). 0 \<le> bill \<and> bill \<le> 100.00) user_bills)"
proof -
  let ?jpu = "[(''user3'', [(4::int, ''IN'', DateTime 2022 4 6 5 10 0),
                 (2, ''OUT'', DateTime 2022 4 6 7 40 0), (2, ''OUT'', DateTime 2022 4 10 7 40 0)])]"
  have h: "\<forall>(user_id, journeys) \<in> set ?jpu.
             journeys \<noteq> [] \<and> (\<forall>j \<in> set journeys. 1 \<le> fst j)"
    by simp
  from bills_within_bounds [OF h] obtain user_bills where
    "calculate_billing_amounts_per_user ?jpu [] = Inr user_bills"
    "\<forall>(user_id, bill) \<in> set user_bills. 0 \<le> bill \<and> bill \<le> 100.00"
    by blast
  then have "\<exists>user_bills. calculate_billing_amounts_per_user ?jpu [] = Inr user_bills
        \<and> list_all (\<lambda>(user_id, bill). 0 \<le> bill \<and> bill \<le> 100.00) user_bills"
    unfolding list_all_iff by blast
  moreover have "list_all (\<lambda>(user_id, journeys). journeys \<noteq> [] \<and> list_all (\<lambda>j. 1 \<le> fst j) journeys) ?jpu"
    by simp
  ultimately show ?thesis
    by (rule conjI [rotated])
qed

text \<open>
  C3. The claim: an OUT processed while the stack of pending entries is empty adds exactly
  5.00 to the daily total of its day, and every zone left on the stack after the loop adds
  5.00 to the daily total of the last day. The loop charges before it checks the date, so
  an OUT that is the first journey of a new day is added to the total of the day before.
  At three OUTs on 4 April and a fourth on 5 April, the fourth enters the loop with the
  total of 4 April at 15.00, raises it to 20.00, and the day check then folds
  \<open>min(15.00, 20.00)\<close> into the month and starts 5 April at 0.00: the bill is 15.00 and
  the 5.00 of 5 April is lost.
\<close>

theorem dangling_out_on_new_day:
  "initial_state
     [(1, ''OUT'', DateTime 2022 4 4 8 0 0), (1, ''OUT'', DateTime 2022 4 4 9 0 0),
      (1, ''OUT'', DateTime 2022 4 4 10 0 0), (1, ''OUT'', DateTime 2022 4 5 8 0 0)]
     = Inr \<lparr>daily_journeys = [], daily_total = 0, monthly_total = 0, cur_day = Date 2022 4 4\<rparr>
   \<and> process_journeys
       \<lparr>daily_journeys = [], daily_total = 0, monthly_total = 0, cur_day = Date 2022 4 4\<rparr>
       [(1, ''OUT'', DateTime 2022 4 4 8 0 0), (1, ''OUT'', DateTime 2022 4 4 9 0 0),
        (1, ''OUT'', DateTime 2022 4 4 10 0 0)]
     = Inr \<lparr>daily_journeys = [], daily_total = 15, monthly_total = 0, cur_day = Date 2022 4 4\<rparr>
   \<and> process_journey
       \<lparr>daily_journeys = [], daily_total = 15, monthly_total = 0, cur_day = Date 2022 4 4\<rparr>
       (1, ''OUT'', DateTime 2022 4 5 8 0 0)
     = Inr \<lparr>daily_journeys = [], daily_total = 0, monthly_total = 15, cur_day = Date 2022 4 5\<rparr>
   \<and> user_bill
       [(1, ''OUT'', DateTime 2022 4 4 8 0 0), (1, ''OUT'', DateTime 2022 4 4 9 0 0),
        (1, ''OUT'', DateTime 2022 4 4 10 0 0), (1, ''OUT'', DateTime 2022 4 5 8 0 0)]
     = Inr 15.00"
proof -
  have "round2 0 = 0"
    using round2_cents [of 0] by simp
  then show ?thesis
    by (simp add: user_bill_def initial_state_def run_simps final_bill_def
        final_monthly_total_def final_daily_total_def)
qed

text \<open>
  C4. The claim: a journey whose direction is neither \<^verbatim>\<open>IN\<close> nor \<^verbatim>\<open>OUT\<close> changes
  nothing. The day check is not part of the \<^verbatim>\<open>if\<close> chain and runs for every journey:
  such a journey dated after the current day folds the daily total into the month.
\<close>

theorem unknown_direction_counterexample:
  "''TRANSFER'' \<noteq> ''IN'' \<and> ''TRANSFER'' \<noteq> ''OUT''
   \<and> process_journey
       \<lparr>daily_journeys = [], daily_total = 5.00, monthly_total = 0.00, cur_day = Date 2022 4 4\<rparr>
       (1, ''TRANSFER'', DateTime 2022 4 5 8 0 0)
     = Inr \<lparr>daily_journeys = [], daily_total = 0.00, monthly_total = 5.00, cur_day = Date 2022 4 5\<rparr>
   \<and> \<lparr>daily_journeys = [], daily_total = 0.00, monthly_total = 5.00, cur_day = Date 2022 4 5\<rparr>
     \<noteq> \<lparr>daily_journeys = [], daily_total = 5.00, monthly_total = 0.00, cur_day = Date 2022 4 4\<rparr>"
  by (simp add: run_simps)

text \<open>
  C4, as amended. A journey whose direction is neither \<^verbatim>\<open>IN\<close> nor \<^verbatim>\<open>OUT\<close> charges
  nothing and leaves the stack alone; the day check still runs, so the state is unchanged
  exactly when the journey is not dated after the current day, and otherwise the daily
  total is folded into the month, reset, and the current day advanced.
\<close>

theorem unknown_direction_only_day_check:
  assumes "direction \<noteq> ''IN''" and "direction \<noteq> ''OUT''"
  shows "process_journey st (zone, direction, timestamp) =
           Inr (if date_gt (date_of timestamp) (cur_day st)
                then st\<lparr>cur_day := date_of timestamp,
                        monthly_total := monthly_total st + min 15.00 (daily_total st),
                        daily_total := 0.00\<rparr>
                else st)"
  using assms by (simp add: process_journey_def charge_journey_def roll_day_def)

theorem unknown_direction_only_day_check_witness:
  "''TRANSFER'' \<noteq> ''IN'' \<and> ''TRANSFER'' \<noteq> ''OUT''
   \<and> process_journey
       \<lparr>daily_journeys = [3], daily_total = 5.00, monthly_total = 0.00, cur_day = Date 2022 4 4\<rparr>
       (1, ''TRANSFER'', DateTime 2022 4 4 8 0 0)
     = Inr \<lparr>daily_journeys = [3], daily_total = 5.00, monthly_total = 0.00, cur_day = Date 2022 4 4\<rparr>"
  using unknown_direction_only_day_check [of "''TRANSFER''"
      "\<lparr>daily_journeys = [3], daily_total = 5.00, monthly_total = 0.00, cur_day = Date 2022 4 4\<rparr>"
      1 "DateTime 2022 4 4 8 0 0"]
  by (simp add: date_gt_def date_of_def)

section \<open>Properties of the zone map loader\<close>

text \<open>
  C5. The claim: loading the zone map fails for every row that is not a station with a
  positive integer, so a zone of zero or below is never stored. The loader converts with
  \<^verbatim>\<open>int\<close> and checks no sign: zones \<open>0\<close> and \<open>-3\<close> are stored.
\<close>

theorem zone_map_zero_and_negative_stored:
  "py_int (\<lambda>s. None) 4300 ''0'' = Some 0 \<and> py_int (\<lambda>s. None) 4300 ''-3'' = Some (- 3)
   \<and> read_zone_map (py_int (\<lambda>s. None) 4300)
       (Some [[''station'', ''zone''], [''station1'', ''0''], [''station2'', ''-3'']]) []
     = Inr [(''station1'', 0), (''station2'', - 3)]"
  by (simp add: read_zone_map_def py_int_simps)

text \<open>
  C5, as amended. Whatever strings the conversion to an integer accepts: loading the zone
  map fails, with a \<^verbatim>\<open>ValueError\<close>, exactly when some row after the header has not two
  fields or has a zone field that the conversion refuses. Otherwise it succeeds, and the
  last row of a station gives its zone, whatever the sign of the integer.
\<close>

theorem read_zone_map_integer_rows:
  "(if \<forall>row \<in> set (tl rows). \<exists>station zone n. row = [station, zone] \<and> to_int zone = Some n
    then \<exists>m'. read_zone_map to_int (Some rows) m = Inr m'
           \<and> (\<forall>pre station zone post n.
                 tl rows = pre @ [station, zone] # post \<longrightarrow>
                 station \<notin> set (map hd post) \<longrightarrow>
                 to_int zone = Some n \<longrightarrow>
                 map_of m' station = Some n)
    else read_zone_map to_int (Some rows) m = Inl ValueError)"
proof (cases "\<forall>row \<in> set (tl rows). \<exists>station zone n. row = [station, zone] \<and> to_int zone = Some n")
  case True
  then obtain m' where m': "read_zone_rows to_int (tl rows) m = Inr m'"
    using read_zone_rows_ok by blast
  have "map_of m' station = Some n"
    if "tl rows = pre @ [station, zone] # post" and "station \<notin> set (map hd post)"
      and "to_int zone = Some n" for pre station zone post n
    using read_zone_rows_last_wins [of to_int pre station zone post m m' n] m' that by simp
  with m' True show ?thesis
    by (simp add: read_zone_map_def)
next
  case False
  have "read_zone_rows to_int (tl rows) m = Inl ValueError"
  proof (cases "read_zone_rows to_int (tl rows) m")
    case (Inl e)
    then show ?thesis
      using read_zone_rows_error by blast
  next
    case (Inr m')
    from read_zone_rows_well_formed [OF this] False show ?thesis
      by blast
  qed
  with False show ?thesis
    by (simp add: read_zone_map_def)
qed

theorem read_zone_map_integer_rows_witness:
  "read_zone_map (py_int (\<lambda>s. None) 4300) (Some [[''station'', ''zone''], [''station1'', ''x'']]) []
     = Inl ValueError
   \<and> (\<exists>m'. read_zone_map (py_int (\<lambda>s. None) 4300)
              (Some [[''station'', ''zone''], [''station1'', ''-3'']]) [] = Inr m'
          \<and> map_of m' ''station1'' = Some (- 3))"
proof -
  let ?int = "py_int (\<lambda>s. None) 4300"
  have x: "?int ''x'' = None" and n: "?int ''-3'' = Some (- 3)"
    by (simp_all add: py_int_simps)
  have "read_zone_map ?int (Some [[''station'', ''zone''], [''station1'', ''x'']]) [] = Inl ValueError"
    using read_zone_map_integer_rows [of "[[''station'', ''zone''], [''station1'', ''x'']]" ?int "[]"] x
    by simp
  moreover have "\<exists>m'. read_zone_map ?int (Some [[''station'', ''zone''], [''station1'', ''-3'']]) [] = Inr m'
          \<and> map_of m' ''station1'' = Some (- 3)"
  proof -
    from read_zone_map_integer_rows [of "[[''station'', ''zone''], [''station1'', ''-3'']]" ?int "[]"] n
    obtain m' where
      r: "read_zone_map ?int (Some [[''station'', ''zone''], [''station1'', ''-3'']]) [] = Inr m'" and
      a: "\<forall>pre station zone post n.
            [[''station1'', ''-3'']] = pre @ [station, zone] # post \<longrightarrow>
            station \<notin> set (map hd post) \<longrightarrow>
            ?int zone = Some n \<longrightarrow>
            map_of m' station = Some n"
      by (auto split: if_splits)
    from a [rule_format, of "[]" "''station1''" "''-3''" "[]" "- 3"] n
    have "map_of m' ''station1'' = Some (- 3)"
      by simp
    with r show ?thesis
      by blast
  qed
  ultimately show ?thesis
    by (rule conjI)
qed

section \<open>Properties of the bill report\<close>

text \<open>
  C8. When nothing fails, the output file holds, in order, what the CSV writer makes of
  one row per entry of the bill dictionary (so one per billed user, the keys of a
  dictionary being distinct); the rows are in ascending order of user identifier,
  compared as strings, and every amount is written as an integer part, a point and
  exactly two digits.
\<close>

theorem bill_report_rows:
  "write_billing_output writerow True None user_bills output_file
     = (None, Some (concat (map writerow (output_rows user_bills))))
   \<and> length (output_rows user_bills) = length user_bills
   \<and> map hd (output_rows user_bills) = map fst (sort user_bills)
   \<and> set (map hd (output_rows user_bills)) = fst ` set user_bills
   \<and> (distinct (map fst user_bills) \<longrightarrow> distinct (map hd (output_rows user_bills)))
   \<and> sorted (map hd (output_rows user_bills))
   \<and> (\<forall>row \<in> set (output_rows user_bills).
         \<exists>user_id bill_amount ip d1 d2.
            (user_id, bill_amount) \<in> set user_bills
            \<and> row = [user_id, format_2f bill_amount]
            \<and> format_2f bill_amount = ip @ ''.'' @ [d1, d2]
            \<and> ip \<noteq> [] \<and> CHR ''.'' \<notin> set ip \<and> is_digit d1 \<and> is_digit d2)"
proof (intro conjI)
  show "write_billing_output writerow True None user_bills output_file
     = (None, Some (concat (map writerow (output_rows user_bills))))"
    by (simp add: write_billing_output_def writerows_concat)
  show "length (output_rows user_bills) = length user_bills"
    by (simp add: output_rows_def)
  show u: "map hd (output_rows user_bills) = map fst (sort user_bills)"
    by (rule output_rows_users)
  show "set (map hd (output_rows user_bills)) = fst ` set user_bills"
    unfolding u by simp
  show "distinct (map fst user_bills) \<longrightarrow> distinct (map hd (output_rows user_bills))"
  proof
    assume "distinct (map fst user_bills)"
    then have "distinct (map fst (sort user_bills))"
      by (simp add: distinct_map)
    then show "distinct (map hd (output_rows user_bills))"
      unfolding u .
  qed
  show "sorted (map hd (output_rows user_bills))"
    unfolding u by (rule sorted_map_fst) simp
  show "\<forall>row \<in> set (output_rows user_bills).
         \<exists>user_id bill_amount ip d1 d2.
            (user_id, bill_amount) \<in> set user_bills
            \<and> row = [user_id, format_2f bill_amount]
            \<and> format_2f bill_amount = ip @ ''.'' @ [d1, d2]
            \<and> ip \<noteq> [] \<and> CHR ''.'' \<notin> set ip \<and> is_digit d1 \<and> is_digit d2"
  proof
    fix row
    assume "row \<in> set (output_rows user_bills)"
    then obtain user_id bill_amount where
      "(user_id, bill_amount) \<in> set user_bills" "row = [user_id, format_2f bill_amount]"
      by (auto simp: output_rows_def)
    with format_2f_shape [of bill_amount] show "\<exists>user_id bill_amount ip d1 d2.
            (user_id, bill_amount) \<in> set user_bills
            \<and> row = [user_id, format_2f bill_amount]
            \<and> format_2f bill_amount = ip @ ''.'' @ [d1, d2]
            \<and> ip \<noteq> [] \<and> CHR ''.'' \<notin> set ip \<and> is_digit d1 \<and> is_digit d2"
      by blast
  qed
qed

theorem bill_report_rows_witness:
  "distinct (map fst [(''user3'', 7.80 :: rat), (''user1'', 6.90), (''user2'', 3.30)])
   \<and> output_rows [(''user3'', 7.80), (''user1'', 6.90), (''user2'', 3.30)]
       = [[''user1'', ''6.90''], [''user2'', ''3.30''], [''user3'', ''7.80'']]
   \<and> sorted (map hd (output_rows [(''user3'', 7.80), (''user1'', 6.90), (''user2'', 3.30)]))"
proof -
  let ?ub = "[(''user3'', 7.80 :: rat), (''user1'', 6.90), (''user2'', 3.30)]"
  have d: "distinct (map fst ?ub)"
    by simp
  have r: "output_rows ?ub = [[''user1'', ''6.90''], [''user2'', ''3.30''], [''user3'', ''7.80'']]"
    by (simp add: report_simps)
  from bill_report_rows [of concat ?ub None] have "sorted (map hd (output_rows ?ub))"
    by (elim conjE)
  with d r show ?thesis
    by (intro conjI)
qed

text \<open>
  C9. The claim: the output file is written whole or not at all. The file is opened for
  writing, which empties it, and the text reaches the device through a buffer; nothing is
  written to a temporary file and moved into place. With rows written as their fields
  between commas and ended by carriage return and line feed, as the CSV writer writes
  fields that hold none of these, the whole report for two users is the 24 characters of
  the first line below; a device that takes eight characters leaves \<open>user1,6.\<close> in the
  file, the old content gone.
\<close>

theorem partial_output_counterexample:
  "write_billing_output (\<lambda>row. row ! 0 @ '','' @ row ! 1 @ [CHR 0x0D, CHR 0x0A]) True None
       [(''user1'', 6.90), (''user2'', 3.30)] (Some ''old'')
     = (None, Some (''user1,6.90'' @ [CHR 0x0D, CHR 0x0A] @ ''user2,3.30'' @ [CHR 0x0D, CHR 0x0A]))
   \<and> write_billing_output (\<lambda>row. row ! 0 @ '','' @ row ! 1 @ [CHR 0x0D, CHR 0x0A]) True (Some 8)
       [(''user1'', 6.90), (''user2'', 3.30)] (Some ''old'')
     = (Some OSError, Some ''user1,6.'')"
  by (simp add: write_billing_output_def report_simps)

text \<open>
  C9, as amended. A run that fails while reading the zone map, reading the journeys or
  computing the bills leaves the destination as it was, and so does a run that cannot
  open the destination. Once the destination is open, the run either writes the whole
  report, or fails and leaves a prefix of the report's text, of whatever length the device
  took before it failed.
\<close>

theorem process_billing_output_file:
  "(\<forall>e. read_zone_map to_int zone_map_file [] = Inl e \<longrightarrow>
        process_billing to_int strptime writerow zone_map_file journey_data_file
            openable capacity output_file
          = (Some e, output_file))
   \<and> (\<forall>station_to_zone e.
        read_zone_map to_int zone_map_file [] = Inr station_to_zone \<longrightarrow>
        read_journey_data strptime station_to_zone journey_data_file [] = Inl e \<longrightarrow>
        process_billing to_int strptime writerow zone_map_file journey_data_file
            openable capacity output_file
          = (Some e, output_file))
   \<and> (\<forall>station_to_zone journeys_per_user e.
        read_zone_map to_int zone_map_file [] = Inr station_to_zone \<longrightarrow>
        read_journey_data strptime station_to_zone journey_data_file [] = Inr journeys_per_user \<longrightarrow>
        calculate_billing_amounts_per_user journeys_per_user [] = Inl e \<longrightarrow>
        process_billing to_int strptime writerow zone_map_file journey_data_file
            openable capacity output_file
          = (Some e, output_file))
   \<and> (\<forall>station_to_zone journeys_per_user user_bills.
        read_zone_map to_int zone_map_file [] = Inr station_to_zone \<longrightarrow>
        read_journey_data strptime station_to_zone journey_data_file [] = Inr journeys_per_user \<longrightarrow>
        calculate_billing_amounts_per_user journeys_per_user [] = Inr user_bills \<longrightarrow>
        process_billing to_int strptime writerow zone_map_file journey_data_file
            openable capacity output_file
          = (if \<not> openable then (Some OSError, output_file)
             else (case capacity of
                     None \<Rightarrow> (None, Some (concat (map writerow (output_rows user_bills))))
                   | Some k \<Rightarrow>
                       if length (concat (map writerow (output_rows user_bills))) \<le> k
                       then (None, Some (concat (map writerow (output_rows user_bills))))
                       else (Some OSError,
                             Some (take k (concat (map writerow (output_rows user_bills))))))))"
  by (simp add: process_billing_def write_billing_output_def writerows_concat split: option.split)

theorem process_billing_output_file_witness:
  "process_billing (py_int (\<lambda>s. None) 4300) (\<lambda>s. Some (DateTime 2022 4 4 9 50 0))
      (\<lambda>row. row ! 0 @ '','' @ row ! 1 @ [CHR 0x0D, CHR 0x0A])
      (Some [[''station'', ''zone''], [''station1'', ''1''], [''station3'', ''3'']])
      (Some [[''user_id'', ''station'', ''direction'', ''time''],
             [''user2'', ''station9'', ''IN'', ''2022-04-04T09:50:00'']])
      True None (Some ''old'')
     = (Some KeyError, Some ''old'')
   \<and> process_billing (py_int (\<lambda>s. None) 4300) (\<lambda>s. Some (DateTime 2022 4 4 9 50 0))
      (\<lambda>row. row ! 0 @ '','' @ row ! 1 @ [CHR 0x0D, CHR 0x0A])
      (Some [[''station'', ''zone''], [''station1'', ''1''], [''station3'', ''3'']])
      (Some [[''user_id'', ''station'', ''direction'', ''time''],
             [''user2'', ''station3'', ''IN'', ''2022-04-04T09:50:00''],
             [''user2'', ''station1'', ''OUT'', ''2022-04-04T09:50:00'']])
      True (Some 8) (Some ''old'')
     = (Some OSError, Some ''user2,3.'')"
proof -
  let ?int = "py_int (\<lambda>s. None) 4300"
  let ?sp = "\<lambda>s :: string. Some (DateTime 2022 4 4 9 50 0)"
  let ?wr = "\<lambda>row :: string list. row ! 0 @ '','' @ row ! 1 @ [CHR 0x0D, CHR 0x0A]"
  let ?zf = "Some [[''station'', ''zone''], [''station1'', ''1''], [''station3'', ''3'']]"
  let ?z = "[(''station1'', 1 :: int), (''station3'', 3)]"
  let ?bad = "Some [[''user_id'', ''station'', ''direction'', ''time''],
             [''user2'', ''station9'', ''IN'', ''2022-04-04T09:50:00'']]"
  let ?good = "Some [[''user_id'', ''station'', ''direction'', ''time''],
             [''user2'', ''station3'', ''IN'', ''2022-04-04T09:50:00''],
             [''user2'', ''station1'', ''OUT'', ''2022-04-04T09:50:00'']]"
  let ?jpu = "[(''user2'', [(3 :: int, ''IN'', DateTime 2022 4 4 9 50 0),
                           (1, ''OUT'', DateTime 2022 4 4 9 50 0)])]"
  have z: "read_zone_map ?int ?zf [] = Inr ?z"
    by (simp add: read_zone_map_def py_int_simps)
  have bad: "read_journey_data ?sp ?z ?bad [] = Inl KeyError"
    by (simp add: read_journey_data_def)
  have good: "read_journey_data ?sp ?z ?good [] = Inr ?jpu"
    by (simp add: read_journey_data_def)
  have bills: "calculate_billing_amounts_per_user ?jpu [] = Inr [(''user2'', 3.30)]"
    by (simp add: user_bill_def initial_state_def run_simps final_bill_def
        final_monthly_total_def final_daily_total_def round2_def round_half_even_def)
  have rows: "concat (map ?wr (output_rows [(''user2'', 3.30)]))
                = ''user2,3.30'' @ [CHR 0x0D, CHR 0x0A]"
    by (simp add: report_simps)
  note pb = process_billing_output_file [of ?int ?zf ?sp ?wr _ True _ "Some ''old''"]
  from pb [of ?bad None] z bad
  have 1: "process_billing ?int ?sp ?wr ?zf ?bad True None (Some ''old'') = (Some KeyError, Some ''old'')"
    by blast
  from pb [of ?good "Some 8"] z good bills
  have "process_billing ?int ?sp ?wr ?zf ?good True (Some 8) (Some ''old'')
          = (if length (concat (map ?wr (output_rows [(''user2'', 3.30)]))) \<le> 8
             then (None, Some (concat (map ?wr (output_rows [(''user2'', 3.30)]))))
             else (Some OSError, Some (take 8 (concat (map ?wr (output_rows [(''user2'', 3.30)]))))))"
    by simp
  then have 2: "process_billing ?int ?sp ?wr ?zf ?good True (Some 8) (Some ''old'')
          = (Some OSError, Some ''user2,3.'')"
    unfolding rows by simp
  from 1 2 show ?thesis
    by (rule conjI)
qed

end
